theory Spec2Isabelle
  imports Complex_Main "HOL-Library.Log_Nat"
begin

section \<open>Python strings\<close>

text \<open>
  A Python \<open>str\<close> is a sequence of Unicode code points. A code point is a natural
  number here, a string a list of them; \<open>py ''abc''\<close> is the literal \<open>"abc"\<close>.
\<close>

type_synonym pychar = nat
type_synonym pystr = "pychar list"

abbreviation py :: "string \<Rightarrow> pystr" where
  "py s \<equiv> map of_char s"

abbreviation newline :: pychar where
  "newline \<equiv> 10"

text \<open>
  \<open>str.isspace\<close> on one code point. CPython's \<open>str.strip\<close>, \<open>str.lstrip\<close>,
  \<open>str.rstrip\<close> and the \<open>\s\<close> class of \<open>re\<close> on \<open>str\<close> patterns all use this
  one predicate: U+0009..U+000D, U+001C..U+001F, U+0020, U+0085, U+00A0, U+1680,
  U+2000..U+200A, U+2028, U+2029, U+202F, U+205F, U+3000.
\<close>

definition isspace :: "pychar \<Rightarrow> bool" where
  "isspace c \<longleftrightarrow>
     (9 \<le> c \<and> c \<le> 13) \<or> (28 \<le> c \<and> c \<le> 32) \<or> c = 133 \<or> c = 160 \<or> c = 5760 \<or>
     (8192 \<le> c \<and> c \<le> 8202) \<or> c = 8232 \<or> c = 8233 \<or> c = 8239 \<or> c = 8287 \<or> c = 12288"

definition lstrip :: "pystr \<Rightarrow> pystr" where
  "lstrip s = dropWhile isspace s"

definition rstrip :: "pystr \<Rightarrow> pystr" where
  "rstrip s = rev (dropWhile isspace (rev s))"

definition strip :: "pystr \<Rightarrow> pystr" where
  "strip s = lstrip (rstrip s)"

section \<open>The regular expressions of the parser\<close>

text \<open>
  The patterns of the source are sequences of single-character classes, each taken once
  or under a greedy quantifier, with capture groups around some of them. \<open>Lit c\<close> is
  the character \<open>c\<close>, \<open>Space\<close> is \<open>\s\<close>, \<open>Dot\<close> is \<open>.\<close> (any character but the
  newline, no \<open>DOTALL\<close> flag being given). \<open>Rep c lo hi\<close> is \<open>c{lo,hi}\<close>, with
  \<open>hi = None\<close> for no upper bound, so \<open>c*\<close> is \<open>Rep c 0 None\<close> and \<open>c+\<close> is
  \<open>Rep c 1 None\<close>. \<open>Mark\<close> stands for a parenthesis of a capture group.
\<close>

datatype cls = Lit pychar | Space | Dot

fun accepts :: "cls \<Rightarrow> pychar \<Rightarrow> bool" where
  "accepts (Lit c) x \<longleftrightarrow> x = c"
| "accepts Space x \<longleftrightarrow> isspace x"
| "accepts Dot x \<longleftrightarrow> x \<noteq> newline"

datatype tok = One cls | Rep cls nat "nat option" | Mark

abbreviation star :: "cls \<Rightarrow> tok" where
  "star c \<equiv> Rep c 0 None"

abbreviation plus1 :: "cls \<Rightarrow> tok" where
  "plus1 c \<equiv> Rep c 1 None"

abbreviation lit :: "char \<Rightarrow> tok" where
  "lit c \<equiv> One (Lit (of_char c))"

text \<open>
  The backtracking matcher of \<open>re\<close>, anchored at the start of the string as
  \<open>re.match\<close> is. A greedy quantifier first takes one more character and matches the
  rest of the pattern after it; only when that fails, and the lower bound is reached,
  does it stop where it is. The result is the first match in that order: the list of
  the inputs that remained at each \<open>Mark\<close>.
\<close>

function rmatch :: "tok list \<Rightarrow> pystr \<Rightarrow> pystr list option" where
  "rmatch [] s = Some []"
| "rmatch (Mark # p) s = map_option ((#) s) (rmatch p s)"
| "rmatch (One c # p) [] = None"
| "rmatch (One c # p) (x # xs) = (if accepts c x then rmatch p xs else None)"
| "rmatch (Rep c lo hi # p) [] = (if lo = 0 then rmatch p [] else None)"
| "rmatch (Rep c lo hi # p) (x # xs) =
     (if accepts c x \<and> hi \<noteq> Some 0 then
        (case rmatch (Rep c (lo - 1) (map_option (\<lambda>h. h - 1) hi) # p) xs of
           Some r \<Rightarrow> Some r
         | None \<Rightarrow> if lo = 0 then rmatch p (x # xs) else None)
      else if lo = 0 then rmatch p (x # xs) else None)"
  by pat_completeness auto
termination
  by (relation "measures [\<lambda>(p, s). length p, \<lambda>(p, s). length s]") auto

text \<open>
  The text of the capture groups, from the inputs that remained at their parentheses:
  group \<open>k\<close> is what was consumed between the marks \<open>2k - 1\<close> and \<open>2k\<close>.
\<close>

fun groups :: "pystr list \<Rightarrow> pystr list" where
  "groups (a # b # ms) = take (length a - length b) a # groups ms"
| "groups ms = []"

definition re_match :: "tok list \<Rightarrow> pystr \<Rightarrow> pystr list option" where
  "re_match p s = map_option groups (rmatch p s)"

section \<open>Tasks and sections\<close>

datatype TaskStatus = COMPLETED | IN_PROGRESS | PENDING | UNKNOWN

record Task =
  content :: pystr
  status :: TaskStatus
  level :: int
  line_number :: int

record TodoSection =
  title :: pystr
  tasks :: "Task list"
  section_line_number :: int

section \<open>The line parser\<close>

text \<open>
  The eight patterns of \<open>parse_task_line\<close>, in the order of the source:
  \<^verbatim>\<open>^\s*-\s*\[x\]\s*(.+)\<close>, the same with \<open>X\<close>, \<open>\s\<close>, \<open>~\<close> and \<open>o\<close> between the
  brackets, then \<^verbatim>\<open>^\s*-\s*(.+)\<close>, \<^verbatim>\<open>^\s*\*\s*(.+)\<close> and \<^verbatim>\<open>^\s*\+\s*(.+)\<close>.
\<close>

definition task_patterns :: "(tok list \<times> TaskStatus) list" where
  "task_patterns =
    [([star Space, lit CHR ''-'', star Space, lit CHR ''['', lit CHR ''x'', lit CHR '']'',
       star Space, Mark, plus1 Dot, Mark], COMPLETED),
     ([star Space, lit CHR ''-'', star Space, lit CHR ''['', lit CHR ''X'', lit CHR '']'',
       star Space, Mark, plus1 Dot, Mark], COMPLETED),
     ([star Space, lit CHR ''-'', star Space, lit CHR ''['', One Space, lit CHR '']'',
       star Space, Mark, plus1 Dot, Mark], PENDING),
     ([star Space, lit CHR ''-'', star Space, lit CHR ''['', lit CHR ''~'', lit CHR '']'',
       star Space, Mark, plus1 Dot, Mark], IN_PROGRESS),
     ([star Space, lit CHR ''-'', star Space, lit CHR ''['', lit CHR ''o'', lit CHR '']'',
       star Space, Mark, plus1 Dot, Mark], IN_PROGRESS),
     ([star Space, lit CHR ''-'', star Space, Mark, plus1 Dot, Mark], PENDING),
     ([star Space, lit CHR ''*'', star Space, Mark, plus1 Dot, Mark], PENDING),
     ([star Space, lit CHR ''+'', star Space, Mark, plus1 Dot, Mark], PENDING)]"

text \<open>
  The loop over the patterns: the first pattern that matches decides. Every pattern has
  its group 1, so \<open>match.group(1)\<close> exists on every match; the model reads it by a
  case whose empty branch no pattern of \<open>task_patterns\<close> reaches.
\<close>

fun first_match :: "(tok list \<times> TaskStatus) list \<Rightarrow> pystr \<Rightarrow> int \<Rightarrow> int \<Rightarrow> Task option" where
  "first_match [] stripped_line lvl n = None"
| "first_match ((pattern, st) # ps) stripped_line lvl n =
     (case re_match pattern stripped_line of
        Some (g # gs) \<Rightarrow> Some \<lparr>content = strip g, status = st, level = lvl, line_number = n\<rparr>
      | Some [] \<Rightarrow> None
      | None \<Rightarrow> first_match ps stripped_line lvl n)"

definition parse_task_line :: "pystr \<Rightarrow> int \<Rightarrow> Task option" where
  "parse_task_line line n =
     (let stripped_line = rstrip line in
      if stripped_line = [] then None
      else
        let lvl = (int (length line) - int (length (lstrip line))) div 2 + 1
        in first_match task_patterns stripped_line lvl n)"

text \<open>
  The header pattern \<^verbatim>\<open>^(#{1,6})\s*(.+)\<close>, on the line stripped on both sides. The
  pattern has its groups 1 and 2, so both exist on every match; the other branch of the
  case is for no match.
\<close>

definition header_pattern :: "tok list" where
  "header_pattern =
     [Mark, Rep (Lit (of_char CHR ''#'')) 1 (Some 6), Mark, star Space, Mark, plus1 Dot, Mark]"

definition parse_section_header :: "pystr \<Rightarrow> int \<Rightarrow> (pystr \<times> int) option" where
  "parse_section_header line n =
     (let stripped_line = strip line in
      case re_match header_pattern stripped_line of
        Some (g1 # g2 # gs) \<Rightarrow> Some (strip g2, int (length g1))
      | _ \<Rightarrow> None)"

section \<open>The document builder\<close>

text \<open>
  \<open>open\<close> and \<open>readlines\<close> either raise \<open>IOError\<close> or \<open>UnicodeDecodeError\<close>, which
  \<open>parse_todo_file\<close> catches, or give the lines of the file.
\<close>

datatype read_result = ReadError | Lines "pystr list"

text \<open>
  The loop \<open>for line_number, line in enumerate(lines, 1)\<close>, with its three variables
  passed along. \<open>if section_info\<close> tests a pair, which is true whenever it is not
  \<open>None\<close>; \<open>if current_section\<close> tests a string or \<open>None\<close>, and the empty string is
  false in Python as \<open>None\<close> is; \<open>if task\<close> tests an object, true when not \<open>None\<close>.
\<close>

fun parse_loop ::
  "int \<Rightarrow> pystr list \<Rightarrow> TodoSection list \<times> pystr option \<times> Task list
     \<Rightarrow> TodoSection list \<times> pystr option \<times> Task list" where
  "parse_loop n [] st = st"
| "parse_loop n (line # rest) (sections, current_section, current_tasks) =
     (case parse_section_header line n of
        Some section_info \<Rightarrow>
          parse_loop (n + 1) rest
            ((case current_section of
                Some t \<Rightarrow>
                  if t \<noteq> [] then
                    sections @ [\<lparr>title = t, tasks = current_tasks, section_line_number = n\<rparr>]
                  else sections
              | None \<Rightarrow> sections),
             Some (fst section_info), [])
      | None \<Rightarrow>
          (case parse_task_line line n of
             Some task \<Rightarrow> parse_loop (n + 1) rest (sections, current_section, current_tasks @ [task])
           | None \<Rightarrow> parse_loop (n + 1) rest (sections, current_section, current_tasks)))"

fun parse_todo_file :: "read_result \<Rightarrow> TodoSection list" where
  "parse_todo_file ReadError = []"
| "parse_todo_file (Lines lines) =
     (case parse_loop 1 lines ([], None, []) of
        (sections, current_section, current_tasks) \<Rightarrow>
          (case current_section of
             Some t \<Rightarrow>
               if t \<noteq> [] then
                 sections @
                   [\<lparr>title = t, tasks = current_tasks, section_line_number = int (length lines)\<rparr>]
               else sections
           | None \<Rightarrow> sections))"

section \<open>The summary\<close>

datatype py_error = KeyError | ZeroDivisionError | OverflowError

text \<open>The statement \<open>summary[k] += 1\<close>: a key that is absent raises \<open>KeyError\<close>.\<close>

definition incr :: "(pystr \<rightharpoonup> int) \<Rightarrow> pystr \<Rightarrow> py_error + (pystr \<rightharpoonup> int)" where
  "incr summary k = (case summary k of None \<Rightarrow> Inl KeyError | Some v \<Rightarrow> Inr (summary(k \<mapsto> v + 1)))"

definition count_task :: "(pystr \<rightharpoonup> int) \<Rightarrow> Task \<Rightarrow> py_error + (pystr \<rightharpoonup> int)" where
  "count_task summary task =
     (case (if status task = COMPLETED then incr summary (py ''completed'')
            else if status task = IN_PROGRESS then incr summary (py ''in_progress'')
            else if status task = PENDING then incr summary (py ''pending'')
            else Inr summary) of
        Inl e \<Rightarrow> Inl e
      | Inr summary' \<Rightarrow> incr summary' (py ''total''))"

fun count_tasks :: "(pystr \<rightharpoonup> int) \<Rightarrow> Task list \<Rightarrow> py_error + (pystr \<rightharpoonup> int)" where
  "count_tasks summary [] = Inr summary"
| "count_tasks summary (task # ts) =
     (case count_task summary task of Inl e \<Rightarrow> Inl e | Inr summary' \<Rightarrow> count_tasks summary' ts)"

fun count_sections :: "(pystr \<rightharpoonup> int) \<Rightarrow> TodoSection list \<Rightarrow> py_error + (pystr \<rightharpoonup> int)" where
  "count_sections summary [] = Inr summary"
| "count_sections summary (section # ss) =
     (case count_tasks summary (tasks section) of
        Inl e \<Rightarrow> Inl e
      | Inr summary' \<Rightarrow> count_sections summary' ss)"

definition get_task_summary :: "TodoSection list \<Rightarrow> py_error + (pystr \<rightharpoonup> int)" where
  "get_task_summary sections =
     count_sections
       [py ''completed'' \<mapsto> 0, py ''in_progress'' \<mapsto> 0, py ''pending'' \<mapsto> 0, py ''total'' \<mapsto> 0]
       sections"

section \<open>Numbers in the report\<close>

text \<open>\<open>str\<close> of an integer, as an f-string prints it: decimal digits, \<open>-\<close> before a negative one.\<close>

function digits :: "nat \<Rightarrow> pystr" where
  "digits k = (if k < 10 then [48 + k] else digits (k div 10) @ [48 + k mod 10])"
  by pat_completeness auto
termination
  by (relation "measure (\<lambda>k. k)") auto

declare digits.simps [simp del]

definition str_int :: "int \<Rightarrow> pystr" where
  "str_int i = (if i < 0 then py ''-'' @ digits (nat (- i)) else digits (nat i))"

text \<open>
  A finite Python \<open>float\<close> is an IEEE 754 double; it is modelled by the rational number
  it stands for. Every operation gives the double nearest to the exact result, a tie
  going to the even significand. \<open>binary_exponent q\<close> is the \<open>e\<close> with
  \<open>2^e \<le> q < 2^(e+1)\<close> for a positive \<open>q\<close>; a double near \<open>q\<close> is a multiple of
  \<open>2^(e - 52)\<close> (53 bits of significand), and of \<open>2^(-1074)\<close> in the subnormal range.
  The sign of a zero is not represented, and a result of magnitude \<open>2^1024\<close> or more
  is not a finite double; the report computes one quotient of two counts, between 0 and
  1, and its product with 100.
\<close>

definition round_half_even :: "rat \<Rightarrow> int" where
  "round_half_even q =
     (let f = \<lfloor>q\<rfloor>; r = q - of_int f
      in if r < 1 / 2 then f else if 1 / 2 < r then f + 1 else if even f then f else f + 1)"

definition binary_exponent :: "rat \<Rightarrow> int" where
  "binary_exponent q = (if 1 \<le> q then bitlen \<lfloor>q\<rfloor> - 1 else - bitlen (\<lceil>1 / q\<rceil> - 1))"

definition scale2 :: "rat \<Rightarrow> int \<Rightarrow> rat" where
  "scale2 q k = (if 0 \<le> k then q * 2 ^ nat k else q / 2 ^ nat (- k))"

definition round_to_double :: "rat \<Rightarrow> rat" where
  "round_to_double q =
     (if q = 0 then 0
      else
        let k = max (binary_exponent \<bar>q\<bar> - 52) (- 1074)
        in scale2 (of_int (round_half_even (scale2 q (- k)))) k)"

text \<open>
  \<open>a / b\<close> on two \<open>int\<close>: the double nearest to the exact quotient;
  \<open>ZeroDivisionError\<close> for a zero divisor, \<open>OverflowError\<close> when the quotient is too
  large for a double.
\<close>

definition int_truediv :: "int \<Rightarrow> int \<Rightarrow> py_error + rat" where
  "int_truediv a b =
     (if b = 0 then Inl ZeroDivisionError
      else
        let r = round_to_double (of_int a / of_int b)
        in if 2 ^ 1024 \<le> \<bar>r\<bar> then Inl OverflowError else Inr r)"

text \<open>\<open>x * y\<close> on two \<open>float\<close>, for a product of magnitude below \<open>2^1024\<close>.\<close>

definition float_mul :: "rat \<Rightarrow> rat \<Rightarrow> rat" where
  "float_mul x y = round_to_double (x * y)"

text \<open>
  The format \<open>:.1f\<close>: the decimal with one digit after the point that is nearest to the
  exact value of the double, a tie going to the even digit.
\<close>

definition format_1f :: "rat \<Rightarrow> pystr" where
  "format_1f x =
     (let d = round_half_even (\<bar>x\<bar> * 10)
      in (if x < 0 then py ''-'' else []) @ str_int (d div 10) @ py ''.'' @ str_int (d mod 10))"

section \<open>The report\<close>

text \<open>\<open>sep.join(xs)\<close>.\<close>

fun join :: "pystr \<Rightarrow> pystr list \<Rightarrow> pystr" where
  "join sep [] = []"
| "join sep [x] = x"
| "join sep (x # y # ys) = x @ sep @ join sep (y # ys)"

text \<open>
  \<open>Task.__str__\<close>: the dictionary \<open>status_icon\<close> has all four statuses as keys; the
  icons are U+2705, U+1F6A7, U+1F4CB and U+2753.
\<close>

fun status_icon :: "TaskStatus \<Rightarrow> pychar" where
  "status_icon COMPLETED = 9989"
| "status_icon IN_PROGRESS = 128679"
| "status_icon PENDING = 128203"
| "status_icon UNKNOWN = 10067"

definition task_str :: "Task \<Rightarrow> pystr" where
  "task_str task =
     (let indent = (if level task > 1 then concat (replicate (nat (level task - 1)) (py ''  ''))
                    else [])
      in indent @ [status_icon (status task)] @ py '' '' @ content task)"

text \<open>\<open>TodoSection.__str__\<close>.\<close>

definition section_str :: "TodoSection \<Rightarrow> pystr" where
  "section_str section =
     (if tasks section = [] then py ''\<newline>## '' @ title section @ py ''\<newline>(No tasks)''
      else
        let task_list = join (py ''\<newline>'') (map task_str (tasks section))
        in py ''\<newline>## '' @ title section @ py ''\<newline>'' @ task_list)"

text \<open>Reading \<open>summary[k]\<close>: \<open>KeyError\<close> for a key that is absent.\<close>

definition getitem :: "(pystr \<rightharpoonup> int) \<Rightarrow> pystr \<Rightarrow> py_error + int" where
  "getitem summary k = (case summary k of None \<Rightarrow> Inl KeyError | Some v \<Rightarrow> Inr v)"

text \<open>
  The lines of the summary that depend on the completion rate: none when the total is
  0, else the line with \<open>(completed / total) * 100\<close> in the format \<open>:.1f\<close>. The line
  begins with three blanks and U+1F4C8.
\<close>

definition completion_rate_lines :: "int \<Rightarrow> int \<Rightarrow> py_error + pystr list" where
  "completion_rate_lines completed total_tasks =
     (if total_tasks > 0 then
        (case int_truediv completed total_tasks of
           Inl e \<Rightarrow> Inl e
         | Inr q \<Rightarrow>
             let completion_rate = float_mul q 100
             in Inr [py ''   '' @ [128200] @ py '' Completion Rate: '' @
                     format_1f completion_rate @ py ''%''])
      else Inr [])"

text \<open>
  The list \<open>output\<close> of \<open>format_output\<close> as it is when the function joins it, for a
  list of sections that is not empty. The first line begins with U+1F4C4, the summary
  with a line break and U+1F4CA; the count lines carry the icons of the statuses.
\<close>

definition output_lines :: "TodoSection list \<Rightarrow> pystr \<Rightarrow> py_error + pystr list" where
  "output_lines sections file_path =
     (case get_task_summary sections of
        Inl e \<Rightarrow> Inl e
      | Inr summary \<Rightarrow>
          (case getitem summary (py ''total'') of Inl e \<Rightarrow> Inl e | Inr total_tasks \<Rightarrow>
          (case getitem summary (py ''completed'') of Inl e \<Rightarrow> Inl e | Inr completed \<Rightarrow>
          (case getitem summary (py ''in_progress'') of Inl e \<Rightarrow> Inl e | Inr in_progress \<Rightarrow>
          (case getitem summary (py ''pending'') of Inl e \<Rightarrow> Inl e | Inr pending \<Rightarrow>
          (case completion_rate_lines completed total_tasks of Inl e \<Rightarrow> Inl e | Inr rate \<Rightarrow>
             Inr ([[128196] @ py '' TODO Report from: '' @ file_path,
                   replicate 60 (of_char CHR ''=''),
                   py ''\<newline>'' @ [128202] @ py '' Task Summary:'',
                   py ''   Total Tasks: '' @ str_int total_tasks,
                   py ''   '' @ [9989] @ py '' Completed: '' @ str_int completed,
                   py ''   '' @ [128679] @ py '' In Progress: '' @ str_int in_progress,
                   py ''   '' @ [128203] @ py '' Pending: '' @ str_int pending]
                  @ rate @ map section_str sections)))))))"

definition format_output :: "TodoSection list \<Rightarrow> pystr \<Rightarrow> py_error + pystr" where
  "format_output sections file_path =
     (if sections = [] then
        Inr ([128196] @ py '' TODO file found at '' @ file_path @ py '' but no tasks detected.'')
      else
        (case output_lines sections file_path of
           Inl e \<Rightarrow> Inl e
         | Inr output \<Rightarrow> Inr (join (py ''\<newline>'') output)))"

section \<open>The file locator\<close>

text \<open>
  \<open>Path\<close> is \<open>PosixPath\<close> or \<open>WindowsPath\<close> by the platform. All candidates are
  \<open>self.directory / name\<close> with one directory, so a candidate is given by its name; two
  of them are equal, for \<open>==\<close> and \<open>in\<close>, when the names are equal: as they are written
  on \<open>PosixPath\<close>, with their letters in lower case on \<open>WindowsPath\<close>. The five names
  are ASCII.
\<close>

datatype flavour = PosixPath | WindowsPath

definition lower_ascii :: "pychar \<Rightarrow> pychar" where
  "lower_ascii c = (if 65 \<le> c \<and> c \<le> 90 then c + 32 else c)"

definition path_eq :: "flavour \<Rightarrow> pystr \<Rightarrow> pystr \<Rightarrow> bool" where
  "path_eq fl a b =
     (case fl of PosixPath \<Rightarrow> a = b | WindowsPath \<Rightarrow> map lower_ascii a = map lower_ascii b)"

text \<open>
  The directory is a partial map from a name to the file the name resolves to; a name
  exists when it resolves to a file.
\<close>

definition find_todo_files :: "flavour \<Rightarrow> (pystr \<rightharpoonup> 'f) \<Rightarrow> pystr list" where
  "find_todo_files fl dir =
     (let todo_files = (if dir (py ''TODO.md'') \<noteq> None then [py ''TODO.md''] else [])
      in foldl
           (\<lambda>todo_files variation.
              if dir variation \<noteq> None \<and> \<not> list_ex (path_eq fl variation) todo_files
              then todo_files @ [variation] else todo_files)
           todo_files
           [py ''todo.md'', py ''TODO.MD'', py ''Todo.md'', py ''ToDo.md''])"

section \<open>Auxiliary notions for the proofs\<close>

text \<open>A string with no whitespace at its end, as \<open>rstrip\<close> and \<open>strip\<close> return it.\<close>

definition rstripped :: "pystr \<Rightarrow> bool" where
  "rstripped s \<longleftrightarrow> s = [] \<or> \<not> isspace (last s)"

text \<open>
  What the common end \<^verbatim>\<open>\s*(.+)\<close> of the patterns gives on such a string: the marks
  around the group, or no match.
\<close>

definition tail_result :: "pystr \<Rightarrow> pystr list option" where
  "tail_result s =
     (let r = dropWhile isspace s
      in if r = [] then None else Some [r, dropWhile (\<lambda>c. c \<noteq> newline) r])"

text \<open>The shape all eight task patterns have: no group before the final \<^verbatim>\<open>\s*(.+)\<close>.\<close>

definition task_pattern :: "tok list \<Rightarrow> bool" where
  "task_pattern p \<longleftrightarrow>
     (\<exists>pre. Mark \<notin> set pre \<and> p = pre @ [star Space, Mark, plus1 Dot, Mark])"

text \<open>The two families of task patterns, by the marker between the brackets and by the bullet.\<close>

definition checkbox_pattern :: "cls \<Rightarrow> tok list" where
  "checkbox_pattern c =
     [star Space, lit CHR ''-'', star Space, lit CHR ''['', One c, lit CHR '']'',
      star Space, Mark, plus1 Dot, Mark]"

definition bullet_pattern :: "pychar \<Rightarrow> tok list" where
  "bullet_pattern b = [star Space, One (Lit b), star Space, Mark, plus1 Dot, Mark]"

text \<open>The numbers of the header lines of a document whose first line has the number \<open>n\<close>.\<close>

fun header_lines :: "int \<Rightarrow> pystr list \<Rightarrow> int list" where
  "header_lines n [] = []"
| "header_lines n (line # rest) =
     (if parse_section_header line n \<noteq> None then n # header_lines (n + 1) rest
      else header_lines (n + 1) rest)"

text \<open>
  Two states of the loop of \<open>parse_todo_file\<close> that differ at most in the tasks
  collected while no section is open.
\<close>

fun same_but_orphans ::
  "TodoSection list \<times> pystr option \<times> Task list \<Rightarrow> TodoSection list \<times> pystr option \<times> Task list \<Rightarrow> bool" where
  "same_but_orphans (secs, cur, ts) (secs', cur', ts') \<longleftrightarrow>
     secs = secs' \<and> cur = cur' \<and> (cur = None \<or> ts = ts')"

text \<open>
  The number of tasks of one status in a list of sections, and the dictionary with the
  four keys of the summary.
\<close>

definition count_status :: "TaskStatus \<Rightarrow> TodoSection list \<Rightarrow> int" where
  "count_status st sections =
     int (length (filter (\<lambda>task. status task = st) (concat (map tasks sections))))"

definition summary_of :: "int \<Rightarrow> int \<Rightarrow> int \<Rightarrow> int \<Rightarrow> (pystr \<rightharpoonup> int)" where
  "summary_of c i p t =
     [py ''completed'' \<mapsto> c, py ''in_progress'' \<mapsto> i, py ''pending'' \<mapsto> p, py ''total'' \<mapsto> t]"

text \<open>
  The first lines of a report for given counts, and the completion rate line for
  \<open>completed\<close> tasks of \<open>total_tasks\<close>: the quotient and its product with 100 in
  double precision, in the format \<open>:.1f\<close>.
\<close>

definition summary_block :: "pystr \<Rightarrow> int \<Rightarrow> int \<Rightarrow> int \<Rightarrow> int \<Rightarrow> pystr list" where
  "summary_block file_path total_tasks completed in_progress pending =
     [[128196] @ py '' TODO Report from: '' @ file_path,
      replicate 60 (of_char CHR ''=''),
      py ''\<newline>'' @ [128202] @ py '' Task Summary:'',
      py ''   Total Tasks: '' @ str_int total_tasks,
      py ''   '' @ [9989] @ py '' Completed: '' @ str_int completed,
      py ''   '' @ [128679] @ py '' In Progress: '' @ str_int in_progress,
      py ''   '' @ [128203] @ py '' Pending: '' @ str_int pending]"

definition rate_line :: "int \<Rightarrow> int \<Rightarrow> pystr" where
  "rate_line completed total_tasks =
     py ''   '' @ [128200] @ py '' Completion Rate: '' @
     format_1f (float_mul (round_to_double (of_int completed / of_int total_tasks)) 100) @
     py ''%''"

text \<open>
  The document of the round-trip scenario, as \<open>readlines\<close> gives it: six lines, each
  with its line break.
\<close>

definition example_document :: "pystr list" where
  "example_document =
     [py ''# Project\<newline>'', py ''## Completed\<newline>'', py ''- [x] Write spec\<newline>'',
      py ''## Pending\<newline>'', py ''- [ ] Review spec\<newline>'', py ''- [ ] Ship\<newline>'']"

definition example_sections :: "TodoSection list" where
  "example_sections =
     [\<lparr>title = py ''Project'', tasks = [], section_line_number = 2\<rparr>,
      \<lparr>title = py ''Completed'',
        tasks = [\<lparr>content = py ''Write spec'', status = COMPLETED, level = 1, line_number = 3\<rparr>],
        section_line_number = 4\<rparr>,
      \<lparr>title = py ''Pending'',
        tasks = [\<lparr>content = py ''Review spec'', status = PENDING, level = 1, line_number = 5\<rparr>,
                 \<lparr>content = py ''Ship'', status = PENDING, level = 1, line_number = 6\<rparr>],
        section_line_number = 6\<rparr>]"

text \<open>
  A directory on a file system that ignores case, holding the one file \<open>TODO.md\<close>:
  every name that is \<open>todo.md\<close> up to case exists and resolves to that file.
\<close>

definition case_insensitive_directory :: "pystr \<rightharpoonup> pystr" where
  "case_insensitive_directory name =
     (if map lower_ascii name = py ''todo.md'' then Some (py ''TODO.md'') else None)"






section \<open>Properties of the matcher\<close>

lemma rstripped_rstrip: "rstripped (rstrip s)"
proof -
  have "dropWhile isspace (rev s) = [] \<or> \<not> isspace (hd (dropWhile isspace (rev s)))"
    using hd_dropWhile [of isspace "rev s"] by blast
  then show ?thesis
    by (auto simp: rstripped_def rstrip_def last_rev)
qed

lemma rstripped_drop: "rstripped s \<Longrightarrow> rstripped (drop k s)"
  by (auto simp: rstripped_def)

lemma rstripped_Cons: "rstripped (x # s) \<Longrightarrow> rstripped s"
  by (auto simp: rstripped_def split: if_splits)

lemma rstripped_dropWhile: "rstripped s \<Longrightarrow> rstripped (dropWhile P s)"
  by (metis dropWhile_eq_drop rstripped_drop)

lemma rstripped_lstrip_nonempty: "rstripped s \<Longrightarrow> s \<noteq> [] \<Longrightarrow> dropWhile isspace s \<noteq> []"
  by (auto simp: rstripped_def dropWhile_eq_Nil_conv)

lemma isspace_newline: "isspace newline"
  by (simp add: isspace_def)

lemma rmatch_star_dot: "rmatch [star Dot, Mark] s = Some [dropWhile (\<lambda>c. c \<noteq> newline) s]"
  by (induction s) auto


lemma rmatch_group_dot:
  "rmatch [Mark, plus1 Dot, Mark] (x # xs) =
     (if x = newline then None else Some [x # xs, dropWhile (\<lambda>c. c \<noteq> newline) xs])"
  by (simp add: rmatch_star_dot)

lemma rmatch_tail:
  "rstripped s \<Longrightarrow> rmatch [star Space, Mark, plus1 Dot, Mark] s = tail_result s"
proof (induction s)
  case Nil
  show ?case by (simp add: tail_result_def)
next
  case (Cons x xs)
  show ?case
  proof (cases "isspace x")
    case True
    with Cons.prems have ne: "xs \<noteq> []" by (auto simp: rstripped_def)
    have rs: "rstripped xs" using Cons.prems by (rule rstripped_Cons)
    have "dropWhile isspace xs \<noteq> []" using rs ne by (rule rstripped_lstrip_nonempty)
    then obtain r where "tail_result xs = Some r"
      by (auto simp: tail_result_def Let_def)
    with Cons.IH [OF rs] True show ?thesis
      by (simp add: tail_result_def)
  next
    case False
    then have "x \<noteq> newline" using isspace_newline by auto
    with False show ?thesis
      by (simp add: tail_result_def rmatch_star_dot)
  qed
qed

lemma rmatch_skip_space:
  "\<not> isspace c \<Longrightarrow>
     rmatch (star Space # One (Lit c) # p) s = rmatch (One (Lit c) # p) (dropWhile isspace s)"
proof (induction s)
  case Nil
  show ?case by simp
next
  case (Cons x xs)
  show ?case
  proof (cases "isspace x")
    case True
    with Cons.prems have "rmatch (One (Lit c) # p) (x # xs) = None" by auto
    with True Cons.IH [OF Cons.prems] show ?thesis
      by (simp split: option.split)
  next
    case False
    then show ?thesis by simp
  qed
qed

lemma groups_tail_result:
  "tail_result s = Some ms \<Longrightarrow>
     groups ms = [takeWhile (\<lambda>c. c \<noteq> newline) (dropWhile isspace s)] \<and>
     dropWhile isspace s \<noteq> []"
proof -
  have "take (length r - length (dropWhile P r)) r = takeWhile P r" for P and r :: pystr
    by (induction r) (auto simp: Suc_diff_le length_dropWhile_le)
  then show "tail_result s = Some ms \<Longrightarrow> ?thesis"
    by (auto simp: tail_result_def Let_def split: if_splits)
qed

lemma rmatch_rep_drop:
  "rmatch (Rep c lo hi # p) s = Some ms \<Longrightarrow> \<exists>k. rmatch p (drop k s) = Some ms"
proof (induction s arbitrary: lo hi)
  case Nil
  then show ?case by (auto split: if_splits)
next
  case (Cons x xs)
  show ?case
  proof (cases "rmatch (Rep c (lo - 1) (map_option (\<lambda>h. h - 1) hi) # p) xs = Some ms")
    case True
    from Cons.IH [OF True] obtain k where "rmatch p (drop k xs) = Some ms" ..
    then have "rmatch p (drop (Suc k) (x # xs)) = Some ms" by simp
    then show ?thesis ..
  next
    case False
    with Cons.prems have "rmatch p (x # xs) = Some ms"
      by (auto split: if_splits option.splits)
    then have "rmatch p (drop 0 (x # xs)) = Some ms" by simp
    then show ?thesis ..
  qed
qed

lemma rmatch_prefix_drop:
  "Mark \<notin> set pre \<Longrightarrow> rmatch (pre @ q) s = Some ms \<Longrightarrow> \<exists>k. rmatch q (drop k s) = Some ms"
proof (induction pre arbitrary: s)
  case Nil
  then have "rmatch q (drop 0 s) = Some ms" by simp
  then show ?case ..
next
  case (Cons t pre)
  from Cons.prems(1) have nm: "Mark \<notin> set pre" and t: "t \<noteq> Mark" by auto
  show ?case
  proof (cases t)
    case (One c)
    with Cons.prems(2) obtain x xs where s: "s = x # xs" and m: "rmatch (pre @ q) xs = Some ms"
      by (cases s) (auto split: if_splits)
    from Cons.IH [OF nm m] obtain k where "rmatch q (drop k xs) = Some ms" ..
    with s have "rmatch q (drop (Suc k) s) = Some ms" by simp
    then show ?thesis ..
  next
    case (Rep c lo hi)
    with Cons.prems(2) have "rmatch (Rep c lo hi # (pre @ q)) s = Some ms" by simp
    from rmatch_rep_drop [OF this] obtain j where "rmatch (pre @ q) (drop j s) = Some ms" ..
    from Cons.IH [OF nm this] obtain k where "rmatch q (drop k (drop j s)) = Some ms" ..
    then have "rmatch q (drop (j + k) s) = Some ms" by (simp add: add.commute)
    then show ?thesis ..
  next
    case Mark
    with t show ?thesis by simp
  qed
qed

lemma in_set_dropWhile: "c \<in> set s \<Longrightarrow> \<not> P c \<Longrightarrow> c \<in> set (dropWhile P s)"
  by (induction s) auto

lemma strip_nonempty: "\<exists>c\<in>set s. \<not> isspace c \<Longrightarrow> strip s \<noteq> []"
proof -
  assume "\<exists>c\<in>set s. \<not> isspace c"
  then obtain c where c: "c \<in> set (rev s)" "\<not> isspace c" by auto
  then have "c \<in> set (dropWhile isspace (rev s))"
    by (rule in_set_dropWhile)
  then have "c \<in> set (rstrip s)"
    by (simp add: rstrip_def)
  with c(2) have "c \<in> set (strip s)"
    by (simp add: strip_def lstrip_def in_set_dropWhile)
  then show ?thesis by auto
qed

lemma group_nonblank:
  assumes "Mark \<notin> set pre" and "rstripped s"
    and "re_match (pre @ [star Space, Mark, plus1 Dot, Mark]) s = Some gs"
  shows "\<exists>g. gs = [g] \<and> strip g \<noteq> []"
proof -
  from assms(3) obtain ms where ms: "rmatch (pre @ [star Space, Mark, plus1 Dot, Mark]) s = Some ms"
    and gs: "gs = groups ms"
    by (auto simp: re_match_def)
  from rmatch_prefix_drop [OF assms(1) ms] obtain k
    where "rmatch [star Space, Mark, plus1 Dot, Mark] (drop k s) = Some ms" ..
  with rmatch_tail [OF rstripped_drop [OF assms(2)], of k]
  have tr: "tail_result (drop k s) = Some ms"
    by simp
  let ?r = "dropWhile isspace (drop k s)"
  from groups_tail_result [OF tr]
  have g: "groups ms = [takeWhile (\<lambda>c. c \<noteq> newline) ?r]" and ne: "?r \<noteq> []"
    by simp_all
  from ne have "\<not> isspace (hd ?r)" by (rule hd_dropWhile)
  moreover from this have "hd ?r \<noteq> newline" using isspace_newline by auto
  ultimately have "\<exists>c\<in>set (takeWhile (\<lambda>c. c \<noteq> newline) ?r). \<not> isspace c"
    using ne by (cases ?r) auto
  then have "strip (takeWhile (\<lambda>c. c \<noteq> newline) ?r) \<noteq> []" by (rule strip_nonempty)
  with g gs show ?thesis by simp
qed


lemma task_patterns_shape: "\<forall>(p, st)\<in>set task_patterns. task_pattern p"
  unfolding task_patterns_def task_pattern_def
  by simp

lemma first_match_Some:
  assumes "\<forall>(p, st)\<in>set ps. task_pattern p" and "rstripped s"
    and "first_match ps s lvl n = Some t"
  shows "content t \<noteq> [] \<and> level t = lvl \<and> line_number t = n"
  using assms
proof (induction ps)
  case Nil
  then show ?case by simp
next
  case (Cons a ps)
  obtain p st where a: "a = (p, st)" by (cases a)
  with Cons.prems(1) obtain pre where pre: "Mark \<notin> set pre"
    and p: "p = pre @ [star Space, Mark, plus1 Dot, Mark]"
    by (auto simp: task_pattern_def)
  show ?case
  proof (cases "re_match p s")
    case None
    with Cons a show ?thesis by simp
  next
    case (Some gs)
    with group_nonblank [OF pre Cons.prems(2)] p obtain g where "gs = [g]" "strip g \<noteq> []"
      by auto
    with Some Cons.prems(3) a show ?thesis by auto
  qed
qed

lemma task_patterns_families:
  "task_patterns =
     [(checkbox_pattern (Lit (of_char CHR ''x'')), COMPLETED),
      (checkbox_pattern (Lit (of_char CHR ''X'')), COMPLETED),
      (checkbox_pattern Space, PENDING),
      (checkbox_pattern (Lit (of_char CHR ''~'')), IN_PROGRESS),
      (checkbox_pattern (Lit (of_char CHR ''o'')), IN_PROGRESS),
      (bullet_pattern (of_char CHR ''-''), PENDING),
      (bullet_pattern (of_char CHR ''*''), PENDING),
      (bullet_pattern (of_char CHR ''+''), PENDING)]"
  by (simp add: task_patterns_def checkbox_pattern_def bullet_pattern_def)

lemma rstripped_append: "rstripped (a @ r) \<Longrightarrow> rstripped r"
  by (auto simp: rstripped_def)




lemma dropWhile_indent:
  "\<forall>c\<in>set ind. isspace c \<Longrightarrow> \<not> isspace x \<Longrightarrow> dropWhile isspace (ind @ x # r) = x # r"
  by (simp add: dropWhile_append2)

lemma rmatch_bullet:
  assumes "\<forall>c\<in>set ind. isspace c" and "\<not> isspace x" and "\<not> isspace b"
  shows "rmatch (star Space # One (Lit b) # p) (ind @ x # r) = (if x = b then rmatch p r else None)"
  using assms by (simp add: rmatch_skip_space dropWhile_indent)

lemma not_space_marks:
  "\<not> isspace (of_char CHR ''-'')" "\<not> isspace (of_char CHR ''['')" "\<not> isspace (of_char CHR '']'')"
  "\<not> isspace (of_char CHR ''*'')" "\<not> isspace (of_char CHR ''+'')"
  "\<not> isspace (of_char CHR ''x'')" "\<not> isspace (of_char CHR ''X'')"
  "\<not> isspace (of_char CHR ''~'')" "\<not> isspace (of_char CHR ''o'')"
  "\<not> isspace (of_char CHR ''#'')"
  by (simp_all add: isspace_def)

lemma re_match_checkbox:
  assumes ind: "\<forall>c\<in>set ind. isspace c" and sp: "\<forall>c\<in>set sp. isspace c"
    and rs: "rstripped rest"
  shows "re_match (checkbox_pattern c)
           (ind @ of_char CHR ''-'' # sp @ of_char CHR ''['' # m # of_char CHR '']'' # rest) =
         (if accepts c m then map_option groups (tail_result rest) else None)"
proof -
  let ?tl = "[star Space, Mark, plus1 Dot, Mark]"
  let ?p2 = "One c # lit CHR '']'' # ?tl"
  let ?p1 = "star Space # lit CHR ''['' # ?p2"
  let ?r2 = "m # of_char CHR '']'' # rest"
  let ?r1 = "sp @ of_char CHR ''['' # ?r2"
  have "rmatch (checkbox_pattern c) (ind @ of_char CHR ''-'' # ?r1) = rmatch ?p1 ?r1"
    unfolding checkbox_pattern_def
    using rmatch_bullet [OF ind not_space_marks(1) not_space_marks(1), of ?p1 ?r1] by simp
  also have "\<dots> = rmatch ?p2 ?r2"
    using rmatch_bullet [OF sp not_space_marks(2) not_space_marks(2), of ?p2 ?r2] by simp
  also have "\<dots> = (if accepts c m then rmatch ?tl rest else None)"
    by simp
  also have "\<dots> = (if accepts c m then tail_result rest else None)"
    using rmatch_tail [OF rs] by simp
  finally show ?thesis by (simp add: re_match_def)
qed

lemma re_match_checkbox_other:
  assumes "\<forall>c\<in>set ind. isspace c" and "\<not> isspace x" and "x \<noteq> of_char CHR ''-''"
  shows "re_match (checkbox_pattern c) (ind @ x # r) = None"
  unfolding checkbox_pattern_def re_match_def
  using rmatch_bullet [OF assms(1,2) not_space_marks(1)] assms(3) by simp

lemma re_match_bullet:
  assumes "\<forall>c\<in>set ind. isspace c" and "\<not> isspace x" and "\<not> isspace b" and "rstripped r"
  shows "re_match (bullet_pattern b) (ind @ x # r) =
         (if x = b then map_option groups (tail_result r) else None)"
  unfolding bullet_pattern_def re_match_def
  using rmatch_bullet [OF assms(1,2,3)] rmatch_tail [OF assms(4)] by simp


section \<open>The claims about the line parser\<close>

text \<open>
  C7. Whenever \<open>parse_task_line\<close> returns a task, the content of the task is not the
  empty string and its level is at least 1; on an empty line and on a line of whitespace
  only it returns no task.
\<close>

theorem parse_task_line_content_level:
  "(parse_task_line line n = Some t \<longrightarrow> content t \<noteq> [] \<and> 1 \<le> level t) \<and>
   ((\<forall>c\<in>set line. isspace c) \<longrightarrow> parse_task_line line n = None)"
proof (intro conjI impI)
  assume r: "parse_task_line line n = Some t"
  let ?lvl = "(int (length line) - int (length (lstrip line))) div 2 + 1"
  from r have "first_match task_patterns (rstrip line) ?lvl n = Some t"
    by (simp add: parse_task_line_def Let_def split: if_splits)
  from first_match_Some [OF task_patterns_shape rstripped_rstrip this]
  have c: "content t \<noteq> []" and l: "level t = ?lvl" by simp_all
  have "length (lstrip line) \<le> length line"
    by (simp add: lstrip_def length_dropWhile_le)
  then have "1 \<le> ?lvl" by simp
  with c l show "content t \<noteq> []" and "1 \<le> level t" by simp_all
next
  assume "\<forall>c\<in>set line. isspace c"
  then have "rstrip line = []"
    by (simp add: rstrip_def dropWhile_eq_Nil_conv)
  then show "parse_task_line line n = None"
    by (simp add: parse_task_line_def)
qed

theorem parse_task_line_content_level_witness:
  "parse_task_line (py ''  - [x] Write spec '') 3 =
     Some \<lparr>content = py ''Write spec'', status = COMPLETED, level = 2, line_number = 3\<rparr> \<and>
   py ''Write spec'' \<noteq> [] \<and> (1::int) \<le> 2 \<and>
   list_all isspace (py ''   '') \<and> parse_task_line (py ''   '') 3 = None"
proof -
  have e: "parse_task_line (py ''  - [x] Write spec '') 3 =
     Some \<lparr>content = py ''Write spec'', status = COMPLETED, level = 2, line_number = 3\<rparr>"
    by (simp add: parse_task_line_def task_patterns_def re_match_def rstrip_def lstrip_def
        strip_def isspace_def)
  have w: "\<forall>c\<in>set (py ''   ''). isspace c"
    by (simp add: isspace_def)
  from parse_task_line_content_level [of "py ''  - [x] Write spec ''" 3] e
    parse_task_line_content_level [of "py ''   ''" 3] w
  show ?thesis by (simp add: list_all_iff)
qed

text \<open>
  C6. The level of every task is the number of whitespace characters at the start of the
  line as given (not of the stripped line), divided by 2 and rounded down, plus 1: level
  1 for no indentation, 2 for two characters, 3 for four.
\<close>

theorem parse_task_line_level:
  assumes "parse_task_line line n = Some t"
  shows "level t = int (length (takeWhile isspace line)) div 2 + 1 \<and>
         (length (takeWhile isspace line) = 0 \<longrightarrow> level t = 1) \<and>
         (length (takeWhile isspace line) = 2 \<longrightarrow> level t = 2) \<and>
         (length (takeWhile isspace line) = 4 \<longrightarrow> level t = 3)"
proof -
  let ?lvl = "(int (length line) - int (length (lstrip line))) div 2 + 1"
  from assms have "first_match task_patterns (rstrip line) ?lvl n = Some t"
    by (simp add: parse_task_line_def Let_def split: if_splits)
  from first_match_Some [OF task_patterns_shape rstripped_rstrip this]
  have l: "level t = ?lvl" by simp
  have "length line = length (takeWhile isspace line) + length (dropWhile isspace line)"
    using takeWhile_dropWhile_id [of isspace line] by (metis length_append)
  then have "int (length line) - int (length (lstrip line)) = int (length (takeWhile isspace line))"
    by (simp add: lstrip_def)
  with l have "level t = int (length (takeWhile isspace line)) div 2 + 1" by simp
  then show ?thesis by simp
qed

theorem parse_task_line_level_witness:
  "parse_task_line (py ''- a'') 1 =
     Some \<lparr>content = py ''a'', status = PENDING, level = 1, line_number = 1\<rparr> \<and>
   parse_task_line (py ''  - [ ] a'') 2 =
     Some \<lparr>content = py ''a'', status = PENDING, level = 2, line_number = 2\<rparr> \<and>
   parse_task_line (py ''    * a'') 3 =
     Some \<lparr>content = py ''a'', status = PENDING, level = 3, line_number = 3\<rparr> \<and>
   length (takeWhile isspace (py ''- a'')) = 0 \<and>
   length (takeWhile isspace (py ''  - [ ] a'')) = 2 \<and>
   length (takeWhile isspace (py ''    * a'')) = 4"
proof -
  obtain t1 where t1: "parse_task_line (py ''- a'') 1 = Some t1"
    and c1: "content t1 = py ''a''" "status t1 = PENDING" "line_number t1 = 1"
    by (simp add: parse_task_line_def task_patterns_def re_match_def rstrip_def lstrip_def
        strip_def isspace_def)
  obtain t2 where t2: "parse_task_line (py ''  - [ ] a'') 2 = Some t2"
    and c2: "content t2 = py ''a''" "status t2 = PENDING" "line_number t2 = 2"
    by (simp add: parse_task_line_def task_patterns_def re_match_def rstrip_def lstrip_def
        strip_def isspace_def)
  obtain t3 where t3: "parse_task_line (py ''    * a'') 3 = Some t3"
    and c3: "content t3 = py ''a''" "status t3 = PENDING" "line_number t3 = 3"
    by (simp add: parse_task_line_def task_patterns_def re_match_def rstrip_def lstrip_def
        strip_def isspace_def)
  have k: "length (takeWhile isspace (py ''- a'')) = 0"
    "length (takeWhile isspace (py ''  - [ ] a'')) = 2"
    "length (takeWhile isspace (py ''    * a'')) = 4"
    by (simp_all add: isspace_def)
  from parse_task_line_level [OF t1] k(1) have "level t1 = 1" by simp
  with c1 have "t1 = \<lparr>content = py ''a'', status = PENDING, level = 1, line_number = 1\<rparr>"
    by (cases t1) simp
  moreover from parse_task_line_level [OF t2] k(2) have "level t2 = 2" by simp
  with c2 have "t2 = \<lparr>content = py ''a'', status = PENDING, level = 2, line_number = 2\<rparr>"
    by (cases t2) simp
  moreover from parse_task_line_level [OF t3] k(3) have "level t3 = 3" by simp
  with c3 have "t3 = \<lparr>content = py ''a'', status = PENDING, level = 3, line_number = 3\<rparr>"
    by (cases t3) simp
  ultimately show ?thesis using t1 t2 t3 k by simp
qed

text \<open>
  C10. A line that, with the whitespace at its end removed, is a \<open>-\<close> bullet and a
  checkbox with nothing after the closing bracket (such as \<open>- [x]\<close> or \<open>- [ ]\<close>) is
  matched by none of the five checkbox patterns; the plain bullet pattern matches it, and
  the task is pending with the bracket text as its content. This holds for every marker
  other than the newline, so for \<open>x\<close>, \<open>X\<close>, \<open>~\<close>, \<open>o\<close> and the blank.
\<close>

theorem parse_task_line_empty_checkbox:
  assumes "rstrip line = ind @ py ''-'' @ sp @ py ''['' @ [m] @ py '']''"
    and "\<forall>c\<in>set ind. isspace c" and "\<forall>c\<in>set sp. isspace c" and "m \<noteq> newline"
  shows "(\<forall>p\<in>set (take 5 task_patterns). re_match (fst p) (rstrip line) = None) \<and>
         (\<exists>t. parse_task_line line n = Some t \<and> status t = PENDING \<and>
              content t = py ''['' @ [m] @ py '']'')"
proof -
  let ?s = "ind @ of_char CHR ''-'' # sp @ of_char CHR ''['' # m # of_char CHR '']'' # []"
  from assms(1) have s: "rstrip line = ?s" by simp
  have rs: "rstripped []" by (simp add: rstripped_def)
  have none: "re_match (checkbox_pattern c) ?s = None" for c
    using re_match_checkbox [OF assms(2,3) rs, of c m] by (simp add: tail_result_def)
  have rb: "rstripped (sp @ of_char CHR ''['' # m # of_char CHR '']'' # [])"
    by (simp add: rstripped_def isspace_def)
  have "dropWhile isspace (sp @ of_char CHR ''['' # m # of_char CHR '']'' # []) =
          of_char CHR ''['' # m # of_char CHR '']'' # []"
    using dropWhile_indent [OF assms(3) not_space_marks(2)] by simp
  then have "tail_result (sp @ of_char CHR ''['' # m # of_char CHR '']'' # []) =
          Some [of_char CHR ''['' # m # of_char CHR '']'' # [], []]"
    using assms(4) by (simp add: tail_result_def)
  with re_match_bullet [OF assms(2) not_space_marks(1) not_space_marks(1) rb]
  have b: "re_match (bullet_pattern (of_char CHR ''-'')) ?s =
             Some [of_char CHR ''['' # m # of_char CHR '']'' # []]"
    by simp
  have st: "strip (of_char CHR ''['' # m # of_char CHR '']'' # []) =
              of_char CHR ''['' # m # of_char CHR '']'' # []"
    by (simp add: strip_def lstrip_def rstrip_def isspace_def)
  have "?s \<noteq> []" by simp
  with s none b st show ?thesis
    by (simp add: parse_task_line_def Let_def task_patterns_families del: of_char_Char)
qed

theorem parse_task_line_empty_checkbox_witness:
  "rstrip (py ''- [x]  '') = [] @ py ''-'' @ py '' '' @ py ''['' @ [of_char CHR ''x''] @ py '']'' \<and>
   list_all isspace [] \<and> list_all isspace (py '' '') \<and> of_char CHR ''x'' \<noteq> newline \<and>
   list_all (\<lambda>p. re_match (fst p) (rstrip (py ''- [x]  '')) = None) (take 5 task_patterns) \<and>
   parse_task_line (py ''- [x]  '') 7 =
     Some \<lparr>content = py ''[x]'', status = PENDING, level = 1, line_number = 7\<rparr>"
proof -
  have r: "rstrip (py ''- [x]  '') = [] @ py ''-'' @ py '' '' @ py ''['' @ [of_char CHR ''x''] @ py '']''"
    by (simp add: rstrip_def isspace_def)
  have w: "\<forall>c\<in>set []. isspace c" "\<forall>c\<in>set (py '' ''). isspace c" "of_char CHR ''x'' \<noteq> newline"
    by (simp_all add: isspace_def)
  have e: "parse_task_line (py ''- [x]  '') 7 =
     Some \<lparr>content = py ''[x]'', status = PENDING, level = 1, line_number = 7\<rparr>"
    by (simp add: parse_task_line_def task_patterns_def re_match_def rstrip_def lstrip_def
        strip_def isspace_def)
  from parse_task_line_empty_checkbox [OF r w, of 7] r w e show ?thesis
    by (simp add: list_all_iff)
qed

lemma first_match_hit:
  "re_match p s = Some (g # gs) \<Longrightarrow>
     first_match ((p, st) # ps) s lvl n =
       Some \<lparr>content = strip g, status = st, level = lvl, line_number = n\<rparr>"
  by simp

lemma first_match_miss:
  "re_match p s = None \<Longrightarrow> first_match ((p, st) # ps) s lvl n = first_match ps s lvl n"
  by simp




lemma checkbox_patterns_star_plus:
  assumes "\<forall>c\<in>set ind. isspace c" and "b = of_char CHR ''*'' \<or> b = of_char CHR ''+''"
  shows "\<forall>p\<in>set (take 5 task_patterns). re_match (fst p) (ind @ b # r) = None"
proof -
  from assms(2) have "\<not> isspace b" "b \<noteq> of_char CHR ''-''"
    using not_space_marks by auto
  from re_match_checkbox_other [OF assms(1) this] show ?thesis
    unfolding task_patterns_families by (simp del: of_char_Char)
qed




section \<open>The claims about the header recognizer\<close>

lemma rstrip_Cons: "\<not> isspace x \<Longrightarrow> rstrip (x # u) = x # rstrip u"
  by (simp add: rstrip_def dropWhile_append)

lemma take_length_dropWhile:
  "take (length r - length (dropWhile P r)) r = takeWhile P r"
  by (induction r) (auto simp: Suc_diff_le length_dropWhile_le)

text \<open>
  C9. When the stripped line begins with seven \<open>#\<close>, the header pattern takes the first
  six as the header marker: the depth is 6, and the title begins with the seventh \<open>#\<close>,
  followed by the rest of the line up to its end (or to a line break inside), without the
  whitespace at its end.
\<close>

theorem parse_section_header_seven:
  assumes "strip line = py ''#######'' @ rest"
  shows "parse_section_header line n =
           Some (of_char CHR ''#'' # rstrip (takeWhile (\<lambda>c. c \<noteq> newline) rest), 6)"
proof -
  have "rmatch header_pattern (py ''#######'' @ rest) =
          Some [py ''#######'' @ rest, of_char CHR ''#'' # rest,
                of_char CHR ''#'' # rest, dropWhile (\<lambda>c. c \<noteq> newline) rest]"
    by (simp add: header_pattern_def rmatch_star_dot isspace_def)
  then have "re_match header_pattern (strip line) =
          Some [py ''######'', of_char CHR ''#'' # takeWhile (\<lambda>c. c \<noteq> newline) rest]"
    using take_length_dropWhile [where P = "\<lambda>c. c \<noteq> newline" and r = rest]
    by (simp add: re_match_def assms Suc_diff_le length_dropWhile_le)
  moreover have "strip (of_char CHR ''#'' # takeWhile (\<lambda>c. c \<noteq> newline) rest) =
      of_char CHR ''#'' # rstrip (takeWhile (\<lambda>c. c \<noteq> newline) rest)"
    using rstrip_Cons [OF not_space_marks(10)] not_space_marks(10)
    by (simp add: strip_def lstrip_def)
  ultimately show ?thesis
    by (simp add: parse_section_header_def)
qed

theorem parse_section_header_seven_witness:
  "strip (py ''  ####### title  '') = py ''#######'' @ py '' title'' \<and>
   parse_section_header (py ''  ####### title  '') 4 = Some (py ''# title'', 6)"
proof -
  have s: "strip (py ''  ####### title  '') = py ''#######'' @ py '' title''"
    by (simp add: strip_def lstrip_def rstrip_def isspace_def)
  have "rstrip (takeWhile (\<lambda>c. c \<noteq> newline) (py '' title'')) = py '' title''"
    by (simp add: rstrip_def isspace_def)
  with parse_section_header_seven [OF s, of 4] s show ?thesis by simp
qed

section \<open>The claims about the document builder\<close>

lemma header_title_nonempty:
  assumes "parse_section_header line n = Some (t, d)"
  shows "t \<noteq> []"
proof -
  let ?s = "strip line"
  let ?tl = "[star Space, Mark, plus1 Dot, Mark]"
  have rs: "rstripped ?s"
    unfolding strip_def lstrip_def by (rule rstripped_dropWhile) (rule rstripped_rstrip)
  from assms obtain g1 g2 gs where g: "re_match header_pattern ?s = Some (g1 # g2 # gs)"
    and t: "t = strip g2"
    by (auto simp: parse_section_header_def Let_def split: option.splits list.splits)
  from g obtain ms where ms: "rmatch header_pattern ?s = Some ms" and gr: "groups ms = g1 # g2 # gs"
    by (auto simp: re_match_def)
  from ms obtain ms1 where ms1: "ms = ?s # ms1"
    and r1: "rmatch (Rep (Lit (of_char CHR ''#'')) 1 (Some 6) # Mark # ?tl) ?s = Some ms1"
    by (auto simp: header_pattern_def)
  from rmatch_rep_drop [OF r1] obtain k where "rmatch (Mark # ?tl) (drop k ?s) = Some ms1" ..
  then obtain ms2 where ms2: "ms1 = drop k ?s # ms2" and r2: "rmatch ?tl (drop k ?s) = Some ms2"
    by auto
  from r2 rmatch_tail [OF rstripped_drop [OF rs], of k]
  have tr: "tail_result (drop k ?s) = Some ms2" by simp
  let ?r = "dropWhile isspace (drop k ?s)"
  from groups_tail_result [OF tr]
  have g2: "groups ms2 = [takeWhile (\<lambda>c. c \<noteq> newline) ?r]" and ne: "?r \<noteq> []"
    by simp_all
  from ne have "\<not> isspace (hd ?r)" by (rule hd_dropWhile)
  moreover from this have "hd ?r \<noteq> newline" using isspace_newline by auto
  ultimately have "\<exists>c\<in>set (takeWhile (\<lambda>c. c \<noteq> newline) ?r). \<not> isspace c"
    using ne by (cases ?r) auto
  then have "strip (takeWhile (\<lambda>c. c \<noteq> newline) ?r) \<noteq> []" by (rule strip_nonempty)
  moreover from gr ms1 ms2 g2 have "g2 = takeWhile (\<lambda>c. c \<noteq> newline) ?r" by simp
  ultimately show ?thesis using t by simp
qed

lemma parse_loop_no_header:
  "\<forall>l\<in>set ls. \<forall>k. parse_section_header l k = None \<Longrightarrow>
     \<exists>ts'. parse_loop n ls (secs, cur, ts) = (secs, cur, ts')"
proof (induction ls arbitrary: n ts)
  case Nil
  show ?case by simp
next
  case (Cons l ls)
  then have h: "parse_section_header l n = None"
    and r: "\<forall>l\<in>set ls. \<forall>k. parse_section_header l k = None"
    by simp_all
  show ?case
  proof (cases "parse_task_line l n")
    case None
    with h Cons.IH [OF r, of "n + 1" ts] show ?thesis by simp
  next
    case (Some task)
    with h Cons.IH [OF r, of "n + 1" "ts @ [task]"] show ?thesis by simp
  qed
qed

lemma parse_loop_append:
  "parse_loop n (xs @ ys) st = parse_loop (n + int (length xs)) ys (parse_loop n xs st)"
proof (induction xs arbitrary: n st)
  case Nil
  show ?case by simp
next
  case (Cons l ls)
  obtain secs cur ts where st: "st = (secs, cur, ts)" by (cases st)
  show ?case
    unfolding st
    by (simp add: Cons.IH ac_simps split: option.split)
qed

lemma parse_loop_same_but_orphans:
  "same_but_orphans st st' \<Longrightarrow> same_but_orphans (parse_loop n ls st) (parse_loop n ls st')"
proof (induction ls arbitrary: n st st')
  case Nil
  then show ?case by simp
next
  case (Cons l ls)
  obtain secs cur ts where st: "st = (secs, cur, ts)" by (cases st)
  obtain secs' cur' ts' where st': "st' = (secs', cur', ts')" by (cases st')
  from Cons.prems st st' have e: "secs' = secs" "cur' = cur" "cur = None \<or> ts = ts'" by auto
  show ?case
  proof (cases "parse_section_header l n")
    case (Some info)
    have "same_but_orphans
        ((case cur of Some t \<Rightarrow> if t \<noteq> [] then
              secs @ [\<lparr>title = t, tasks = ts, section_line_number = n\<rparr>] else secs
          | None \<Rightarrow> secs), Some (fst info), [])
        ((case cur of Some t \<Rightarrow> if t \<noteq> [] then
              secs @ [\<lparr>title = t, tasks = ts', section_line_number = n\<rparr>] else secs
          | None \<Rightarrow> secs), Some (fst info), [])"
      using e(3) by (auto split: option.split)
    from Cons.IH [OF this] Some show ?thesis
      unfolding st st' e by simp
  next
    case None
    show ?thesis
    proof (cases "parse_task_line l n")
      case N: None
      have "same_but_orphans (secs, cur, ts) (secs, cur, ts')" using e(3) by simp
      from Cons.IH [OF this] None N show ?thesis
        unfolding st st' e by simp
    next
      case (Some task)
      have "same_but_orphans (secs, cur, ts @ [task]) (secs, cur, ts' @ [task])"
        using e(3) by auto
      from Cons.IH [OF this] None Some show ?thesis
        unfolding st st' e by simp
    qed
  qed
qed

lemma parse_section_header_empty: "parse_section_header [] k = None"
  by (simp add: parse_section_header_def header_pattern_def re_match_def strip_def lstrip_def
      rstrip_def)

text \<open>
  C3. A document none of whose lines is a header gives no section, whatever task lines
  it has. And when the lines before the first header are replaced by empty lines, the
  sections of a document stay the same: nothing of these lines is in any section.
\<close>

theorem parse_todo_file_no_header:
  assumes "\<forall>l\<in>set pre. \<forall>k. parse_section_header l k = None"
  shows "parse_todo_file (Lines pre) = [] \<and>
         parse_todo_file (Lines (pre @ rest)) =
           parse_todo_file (Lines (map (\<lambda>l. []) pre @ rest))"
proof
  from parse_loop_no_header [OF assms, of 1 "[]" None "[]"]
  show "parse_todo_file (Lines pre) = []" by auto
next
  let ?blank = "map (\<lambda>l. []) pre"
  have "\<forall>l\<in>set ?blank. \<forall>k. parse_section_header l k = None"
    by (simp add: parse_section_header_empty)
  from parse_loop_no_header [OF this, of 1 "[]" None "[]"] parse_loop_no_header [OF assms, of 1 "[]" None "[]"]
  have "same_but_orphans (parse_loop 1 pre ([], None, [])) (parse_loop 1 ?blank ([], None, []))"
    by auto
  from parse_loop_same_but_orphans [OF this, of "1 + int (length pre)" rest]
  have "same_but_orphans (parse_loop 1 (pre @ rest) ([], None, []))
          (parse_loop 1 (?blank @ rest) ([], None, []))"
    by (simp add: parse_loop_append)
  then show "parse_todo_file (Lines (pre @ rest)) = parse_todo_file (Lines (?blank @ rest))"
    by (cases "parse_loop 1 (pre @ rest) ([], None, [])";
        cases "parse_loop 1 (?blank @ rest) ([], None, [])") (auto split: option.split)
qed

theorem parse_todo_file_no_header_witness:
  "(\<forall>k. parse_section_header (py ''- [x] early\<newline>'') k = None) \<and>
   (\<forall>k. parse_section_header (py ''some prose\<newline>'') k = None) \<and>
   parse_todo_file (Lines [py ''- [x] early\<newline>'', py ''some prose\<newline>'']) = [] \<and>
   parse_todo_file (Lines ([py ''- [x] early\<newline>'', py ''some prose\<newline>''] @ [py ''# Head\<newline>'', py ''- late''])) =
     [\<lparr>title = py ''Head'',
       tasks = [\<lparr>content = py ''late'', status = PENDING, level = 1, line_number = 4\<rparr>],
       section_line_number = 4\<rparr>] \<and>
   parse_todo_file (Lines (map (\<lambda>l. []) [py ''- [x] early\<newline>'', py ''some prose\<newline>''] @
       [py ''# Head\<newline>'', py ''- late''])) =
     [\<lparr>title = py ''Head'',
       tasks = [\<lparr>content = py ''late'', status = PENDING, level = 1, line_number = 4\<rparr>],
       section_line_number = 4\<rparr>]"
proof -
  have h: "\<forall>k. parse_section_header (py ''- [x] early\<newline>'') k = None"
    "\<forall>k. parse_section_header (py ''some prose\<newline>'') k = None"
    by (simp_all add: parse_section_header_def header_pattern_def re_match_def strip_def
        lstrip_def rstrip_def isspace_def)
  then have a: "\<forall>l\<in>set [py ''- [x] early\<newline>'', py ''some prose\<newline>'']. \<forall>k. parse_section_header l k = None"
    by simp
  have e: "parse_todo_file (Lines (map (\<lambda>l. []) [py ''- [x] early\<newline>'', py ''some prose\<newline>''] @
       [py ''# Head\<newline>'', py ''- late''])) =
     [\<lparr>title = py ''Head'',
       tasks = [\<lparr>content = py ''late'', status = PENDING, level = 1, line_number = 4\<rparr>],
       section_line_number = 4\<rparr>]"
    by (simp add: parse_section_header_def header_pattern_def parse_task_line_def
        task_patterns_def re_match_def strip_def lstrip_def rstrip_def isspace_def)
  from parse_todo_file_no_header [OF a, of "[py ''# Head\<newline>'', py ''- late'']"] h e
  show ?thesis by simp
qed

lemma parse_loop_line_numbers:
  assumes "cur = None \<or> (\<exists>t. cur = Some t \<and> t \<noteq> [])"
  shows "\<exists>secs' cur' ts'.
           parse_loop n ls (secs, cur, ts) = (secs', cur', ts') \<and>
           map section_line_number secs' =
             map section_line_number secs @
               (if cur = None then tl (header_lines n ls) else header_lines n ls) \<and>
           (cur' = None \<longleftrightarrow> cur = None \<and> header_lines n ls = []) \<and>
           (cur' = None \<or> (\<exists>t. cur' = Some t \<and> t \<noteq> []))"
  using assms
proof (induction ls arbitrary: n secs cur ts)
  case Nil
  then show ?case by auto
next
  case (Cons l ls)
  show ?case
  proof (cases "parse_section_header l n")
    case None
    then have h: "header_lines n (l # ls) = header_lines (n + 1) ls" by simp
    show ?thesis
    proof (cases "parse_task_line l n")
      case N: None
      with None have "parse_loop n (l # ls) (secs, cur, ts) = parse_loop (n + 1) ls (secs, cur, ts)"
        by simp
      then show ?thesis
        unfolding h by (simp only: Cons.IH [OF Cons.prems])
    next
      case (Some task)
      with None have "parse_loop n (l # ls) (secs, cur, ts) =
          parse_loop (n + 1) ls (secs, cur, ts @ [task])"
        by simp
      then show ?thesis
        unfolding h by (simp only: Cons.IH [OF Cons.prems])
    qed
  next
    case (Some info)
    obtain t d where info: "info = (t, d)" by (cases info)
    with Some have "t \<noteq> []" by (simp add: header_title_nonempty)
    then have ok: "Some t = None \<or> (\<exists>u. Some t = Some u \<and> u \<noteq> [])" by simp
    let ?secs = "case cur of
        Some u \<Rightarrow> if u \<noteq> [] then secs @ [\<lparr>title = u, tasks = ts, section_line_number = n\<rparr>] else secs
      | None \<Rightarrow> secs"
    from Cons.prems have m: "map section_line_number ?secs =
        map section_line_number secs @ (if cur = None then [] else [n])"
      by auto
    from Cons.IH [OF ok, of "n + 1" ?secs "[]"] Some info m show ?thesis
      by auto
  qed
qed

text \<open>
  C4. The line numbers of the sections of a document, in order, are the numbers of its
  header lines from the second header on, followed by the number of lines of the
  document: a section closed by a header has the number of that header, not of the one
  that opened it, and the last section has the total number of lines. A document with
  no header has no section.
\<close>

theorem parse_todo_file_line_numbers:
  "map section_line_number (parse_todo_file (Lines lines)) =
     (case header_lines 1 lines of [] \<Rightarrow> [] | h # hs \<Rightarrow> hs @ [int (length lines)])"
proof -
  from parse_loop_line_numbers [of None 1 lines "[]" "[]"]
  obtain secs' cur' ts' where l: "parse_loop 1 lines ([], None, []) = (secs', cur', ts')"
    and m: "map section_line_number secs' = tl (header_lines 1 lines)"
    and c: "cur' = None \<longleftrightarrow> header_lines 1 lines = []"
    and ok: "cur' = None \<or> (\<exists>t. cur' = Some t \<and> t \<noteq> [])"
    by auto
  show ?thesis
  proof (cases "header_lines 1 lines")
    case Nil
    with l m c show ?thesis by simp
  next
    case (Cons h hs)
    with c ok obtain t where "cur' = Some t" "t \<noteq> []" by auto
    with l m Cons show ?thesis by simp
  qed
qed

section \<open>The claims about the summary and the report\<close>

lemma floor_rat_numeral: "\<lfloor>numeral a / numeral b :: rat\<rfloor> = numeral a div numeral b"
  by (metis floor_divide_of_int_eq of_int_numeral)

lemma ceiling_rat_numeral: "\<lceil>numeral a / numeral b :: rat\<rceil> = - (- numeral a div numeral b)"
proof -
  have "\<lceil>of_int (numeral a) / of_int (numeral b) :: rat\<rceil> = - (- numeral a div numeral b)"
    by (metis ceiling_def floor_divide_of_int_eq minus_divide_left of_int_minus)
  then show ?thesis by simp
qed


lemma incr_summary:
  "incr (summary_of c i p t) (py ''completed'') = Inr (summary_of (c + 1) i p t)"
  "incr (summary_of c i p t) (py ''in_progress'') = Inr (summary_of c (i + 1) p t)"
  "incr (summary_of c i p t) (py ''pending'') = Inr (summary_of c i (p + 1) t)"
  "incr (summary_of c i p t) (py ''total'') = Inr (summary_of c i p (t + 1))"
  by (auto simp: incr_def summary_of_def fun_eq_iff)

lemma count_task_summary:
  "count_task (summary_of c i p t) task =
     Inr (summary_of (c + (if status task = COMPLETED then 1 else 0))
            (i + (if status task = IN_PROGRESS then 1 else 0))
            (p + (if status task = PENDING then 1 else 0)) (t + 1))"
  by (cases "status task") (simp_all add: count_task_def incr_summary del: of_char_Char list.map)

lemma count_tasks_summary:
  "count_tasks (summary_of c i p t) ts =
     Inr (summary_of (c + int (length (filter (\<lambda>x. status x = COMPLETED) ts)))
            (i + int (length (filter (\<lambda>x. status x = IN_PROGRESS) ts)))
            (p + int (length (filter (\<lambda>x. status x = PENDING) ts)))
            (t + int (length ts)))"
proof (induction ts arbitrary: c i p t)
  case Nil
  show ?case by simp
next
  case (Cons task ts)
  show ?case
    by (simp add: count_task_summary Cons.IH ac_simps)
qed

lemma count_sections_summary:
  "count_sections (summary_of c i p t) ss =
     Inr (summary_of (c + count_status COMPLETED ss) (i + count_status IN_PROGRESS ss)
            (p + count_status PENDING ss) (t + int (length (concat (map tasks ss)))))"
proof (induction ss arbitrary: c i p t)
  case Nil
  show ?case by (simp add: count_status_def)
next
  case (Cons s ss)
  show ?case
    by (simp add: count_tasks_summary Cons.IH count_status_def ac_simps)
qed

lemma length_by_status:
  "int (length ts) =
     int (length (filter (\<lambda>x. status x = COMPLETED) ts)) +
     int (length (filter (\<lambda>x. status x = IN_PROGRESS) ts)) +
     int (length (filter (\<lambda>x. status x = PENDING) ts)) +
     int (length (filter (\<lambda>x. status x = UNKNOWN) ts))"
proof (induction ts)
  case Nil
  show ?case by simp
next
  case (Cons task ts)
  then show ?case by (cases "status task") simp_all
qed

lemma get_task_summary_counts:
  "get_task_summary ss =
     Inr (summary_of (count_status COMPLETED ss) (count_status IN_PROGRESS ss)
            (count_status PENDING ss)
            (count_status COMPLETED ss + count_status IN_PROGRESS ss +
             count_status PENDING ss + count_status UNKNOWN ss))"
proof -
  have "get_task_summary ss = count_sections (summary_of 0 0 0 0) ss"
    by (simp add: get_task_summary_def summary_of_def)
  then show ?thesis
    using length_by_status [of "concat (map tasks ss)"]
    by (simp add: count_sections_summary count_status_def)
qed

lemma count_status_nonneg: "0 \<le> count_status st ss"
  by (simp add: count_status_def)

lemma round_half_even_bounds:
  assumes "0 \<le> x" and "x \<le> of_int N"
  shows "0 \<le> round_half_even x \<and> round_half_even x \<le> N"
proof -
  from assms(1) have f0: "0 \<le> \<lfloor>x\<rfloor>" by simp
  from assms(2) have fN: "\<lfloor>x\<rfloor> \<le> N" by (simp add: floor_le_iff)
  show ?thesis
  proof (cases "\<lfloor>x\<rfloor> = N")
    case True
    with assms(2) have "x = of_int \<lfloor>x\<rfloor>" by linarith
    then have "x - of_int \<lfloor>x\<rfloor> = 0" by simp
    then show ?thesis using f0 True by (simp add: round_half_even_def Let_def)
  next
    case False
    with fN have "\<lfloor>x\<rfloor> + 1 \<le> N" by simp
    with f0 fN show ?thesis by (auto simp: round_half_even_def Let_def)
  qed
qed

lemma round_to_double_unit:
  assumes "0 \<le> q" and "q \<le> 1"
  shows "0 \<le> round_to_double q \<and> round_to_double q \<le> 1"
proof (cases "q = 0")
  case True
  then show ?thesis by (simp add: round_to_double_def)
next
  case False
  with assms have pos: "0 < q" by simp
  define k where "k = max (binary_exponent \<bar>q\<bar> - 52) (- 1074)"
  have "binary_exponent \<bar>q\<bar> \<le> 0"
  proof (cases "q = 1")
    case True
    then show ?thesis by (simp add: binary_exponent_def bitlen_def compute_floorlog)
  next
    case False
    with assms pos have "\<not> 1 \<le> \<bar>q\<bar>" by simp
    then show ?thesis using bitlen_nonneg by (simp add: binary_exponent_def)
  qed
  then have k: "k < 0" by (simp add: k_def)
  define N :: int where "N = 2 ^ nat (- k)"
  have s: "scale2 q (- k) = q * of_int N" using k by (simp add: scale2_def N_def)
  have "0 \<le> q * of_int N" using pos by (simp add: N_def)
  moreover have "q * of_int N \<le> of_int N" using assms(2) by (simp add: N_def mult_left_le_one_le)
  ultimately have b: "0 \<le> round_half_even (q * of_int N)" "round_half_even (q * of_int N) \<le> N"
    using round_half_even_bounds by blast+
  have "round_to_double q = of_int (round_half_even (q * of_int N)) / of_int N"
    using False k s by (simp add: round_to_double_def k_def [symmetric] Let_def scale2_def N_def)
  moreover have "0 < (of_int N :: rat)" by (simp add: N_def)
  ultimately show ?thesis using b
    by (simp add: divide_le_eq_1 del: of_int_power)
qed

lemma getitem_summary:
  "getitem (summary_of c i p t) (py ''completed'') = Inr c"
  "getitem (summary_of c i p t) (py ''in_progress'') = Inr i"
  "getitem (summary_of c i p t) (py ''pending'') = Inr p"
  "getitem (summary_of c i p t) (py ''total'') = Inr t"
  by (simp_all add: getitem_def summary_of_def)

lemma completion_rate_lines_counts:
  assumes "0 \<le> c" and "c \<le> t"
  shows "completion_rate_lines c t = Inr (if 0 < t then [rate_line c t] else [])"
proof (cases "0 < t")
  case False
  then show ?thesis by (simp add: completion_rate_lines_def)
next
  case True
  with assms have "0 \<le> (of_int c / of_int t :: rat)" "(of_int c / of_int t :: rat) \<le> 1"
    by simp_all
  from round_to_double_unit [OF this]
  have "\<bar>round_to_double (of_int c / of_int t)\<bar> \<le> 1" by simp
  moreover have "(1::rat) < 2 ^ 1024" by simp
  ultimately have "\<not> 2 ^ 1024 \<le> \<bar>round_to_double (of_int c / of_int t)\<bar>" by linarith
  with True show ?thesis
    by (simp add: completion_rate_lines_def int_truediv_def Let_def rate_line_def
        del: of_char_Char list.map)
qed

lemma output_lines_counts:
  "output_lines ss path =
     Inr (summary_block path
            (count_status COMPLETED ss + count_status IN_PROGRESS ss +
             count_status PENDING ss + count_status UNKNOWN ss)
            (count_status COMPLETED ss) (count_status IN_PROGRESS ss) (count_status PENDING ss) @
          (if 0 < count_status COMPLETED ss + count_status IN_PROGRESS ss +
                  count_status PENDING ss + count_status UNKNOWN ss
           then [rate_line (count_status COMPLETED ss)
                   (count_status COMPLETED ss + count_status IN_PROGRESS ss +
                    count_status PENDING ss + count_status UNKNOWN ss)]
           else []) @
          map section_str ss)"
proof -
  define c where "c = count_status COMPLETED ss"
  define t where "t = c + count_status IN_PROGRESS ss + count_status PENDING ss + count_status UNKNOWN ss"
  have "0 \<le> c" "c \<le> t"
    using count_status_nonneg [of COMPLETED ss] count_status_nonneg [of IN_PROGRESS ss]
      count_status_nonneg [of PENDING ss] count_status_nonneg [of UNKNOWN ss]
    by (simp_all add: c_def t_def)
  from completion_rate_lines_counts [OF this] show ?thesis
    unfolding c_def t_def
    by (simp add: output_lines_def get_task_summary_counts getitem_summary summary_block_def
        del: of_char_Char list.map)
qed




















lemma rate_line_marker: "take 4 (rate_line c t) = [32, 32, 32, 128200]"
  by (simp add: rate_line_def)







lemmas eval_parse =
  parse_section_header_def header_pattern_def parse_task_line_def task_patterns_def
  re_match_def strip_def lstrip_def rstrip_def isspace_def

lemmas eval_float =
  round_to_double_def binary_exponent_def bitlen_def compute_floorlog scale2_def
  round_half_even_def Let_def floor_rat_numeral ceiling_rat_numeral float_mul_def
  format_1f_def str_int_def digits.simps

lemma parse_example_document: "parse_todo_file (Lines example_document) = example_sections"
  by (simp add: example_document_def example_sections_def eval_parse)

lemma counts_example_sections:
  "count_status COMPLETED example_sections = 1"
  "count_status IN_PROGRESS example_sections = 0"
  "count_status PENDING example_sections = 2"
  "count_status UNKNOWN example_sections = 0"
  by (simp_all add: count_status_def example_sections_def)

lemma rate_line_1_3: "rate_line 1 3 = py ''   '' @ [128200] @ py '' Completion Rate: 33.3%''"
  by (simp add: rate_line_def eval_float)

theorem parse_todo_file_line_numbers_witness:
  "header_lines 1 example_document = [1, 2, 4] \<and>
   map section_line_number (parse_todo_file (Lines example_document)) = [2, 4, 6]"
proof -
  have "header_lines 1 example_document = [1, 2, 4]"
    by (simp add: example_document_def eval_parse)
  with parse_todo_file_line_numbers [of example_document] show ?thesis
    by (simp add: example_document_def)
qed

text \<open>
  C1, the claim as it is written: the parse of the six-line document does not have two
  sections. The first line is a header too, and the second header closes its section
  with no task in it.
\<close>

theorem example_document_sections_counterexample:
  "length (parse_todo_file (Lines example_document)) \<noteq> 2 \<and>
   map title (parse_todo_file (Lines example_document)) =
     [py ''Project'', py ''Completed'', py ''Pending'']"
  unfolding parse_example_document by (simp add: example_sections_def)


text \<open>
  C1, amended. The six-line document parses into three sections: \<open>Project\<close> with no
  task, \<open>Completed\<close> with one completed task and \<open>Pending\<close> with two pending tasks.
  Its summary is 1 completed, 0 in progress, 2 pending, 3 in total, and the report has
  the completion rate line with 33.3%.
\<close>

theorem example_document_report:
  "parse_todo_file (Lines example_document) =
     [\<lparr>title = py ''Project'', tasks = [], section_line_number = 2\<rparr>,
      \<lparr>title = py ''Completed'',
        tasks = [\<lparr>content = py ''Write spec'', status = COMPLETED, level = 1, line_number = 3\<rparr>],
        section_line_number = 4\<rparr>,
      \<lparr>title = py ''Pending'',
        tasks = [\<lparr>content = py ''Review spec'', status = PENDING, level = 1, line_number = 5\<rparr>,
                 \<lparr>content = py ''Ship'', status = PENDING, level = 1, line_number = 6\<rparr>],
        section_line_number = 6\<rparr>] \<and>
   get_task_summary (parse_todo_file (Lines example_document)) =
     Inr [py ''completed'' \<mapsto> 1, py ''in_progress'' \<mapsto> 0, py ''pending'' \<mapsto> 2, py ''total'' \<mapsto> 3] \<and>
   format_output (parse_todo_file (Lines example_document)) (py ''TODO.md'') =
     Inr (join (py ''\<newline>'')
       [[128196] @ py '' TODO Report from: TODO.md'',
        replicate 60 (of_char CHR ''=''),
        py ''\<newline>'' @ [128202] @ py '' Task Summary:'',
        py ''   Total Tasks: 3'',
        py ''   '' @ [9989] @ py '' Completed: 1'',
        py ''   '' @ [128679] @ py '' In Progress: 0'',
        py ''   '' @ [128203] @ py '' Pending: 2'',
        py ''   '' @ [128200] @ py '' Completion Rate: 33.3%'',
        py ''\<newline>## Project\<newline>(No tasks)'',
        py ''\<newline>## Completed\<newline>'' @ [9989] @ py '' Write spec'',
        py ''\<newline>## Pending\<newline>'' @ [128203] @ py '' Review spec\<newline>'' @ [128203] @ py '' Ship''])"
proof -
  have s: "get_task_summary example_sections =
     Inr [py ''completed'' \<mapsto> 1, py ''in_progress'' \<mapsto> 0, py ''pending'' \<mapsto> 2, py ''total'' \<mapsto> 3]"
    by (simp add: get_task_summary_counts counts_example_sections summary_of_def)
  have b: "summary_block (py ''TODO.md'') 3 1 0 2 =
       [[128196] @ py '' TODO Report from: TODO.md'',
        replicate 60 (of_char CHR ''=''),
        py ''\<newline>'' @ [128202] @ py '' Task Summary:'',
        py ''   Total Tasks: 3'',
        py ''   '' @ [9989] @ py '' Completed: 1'',
        py ''   '' @ [128679] @ py '' In Progress: 0'',
        py ''   '' @ [128203] @ py '' Pending: 2'']"
    by (simp add: summary_block_def str_int_def digits.simps)
  have m: "map section_str example_sections =
       [py ''\<newline>## Project\<newline>(No tasks)'',
        py ''\<newline>## Completed\<newline>'' @ [9989] @ py '' Write spec'',
        py ''\<newline>## Pending\<newline>'' @ [128203] @ py '' Review spec\<newline>'' @ [128203] @ py '' Ship'']"
    by (simp add: example_sections_def section_str_def task_str_def)
  have "output_lines example_sections (py ''TODO.md'') =
      Inr (summary_block (py ''TODO.md'') 3 1 0 2 @ [rate_line 1 3] @ map section_str example_sections)"
    by (simp add: output_lines_counts counts_example_sections del: of_char_Char list.map)
  then have "format_output example_sections (py ''TODO.md'') =
      Inr (join (py ''\<newline>'')
        (summary_block (py ''TODO.md'') 3 1 0 2 @ [rate_line 1 3] @ map section_str example_sections))"
    by (simp add: format_output_def example_sections_def)
  with s show ?thesis
    unfolding parse_example_document b m rate_line_1_3
    by (simp add: example_sections_def)
qed





section \<open>The claim about the file locator\<close>

lemma find_todo_files_posix:
  "find_todo_files PosixPath dir =
     filter (\<lambda>name. dir name \<noteq> None)
       [py ''TODO.md'', py ''todo.md'', py ''TODO.MD'', py ''Todo.md'', py ''ToDo.md'']"
  by (simp add: find_todo_files_def path_eq_def)

text \<open>
  C8, on the code. With \<open>PosixPath\<close>, in a directory of a file system that ignores
  case and holds the one file \<open>TODO.md\<close>, \<open>find_todo_files\<close> returns all five names,
  and all five resolve to that one file: the test \<open>file_path not in todo_files\<close>
  compares the paths as written, which differ. With \<open>WindowsPath\<close> the same directory
  gives the one entry.
\<close>

theorem find_todo_files_case_insensitive:
  "find_todo_files PosixPath case_insensitive_directory =
     [py ''TODO.md'', py ''todo.md'', py ''TODO.MD'', py ''Todo.md'', py ''ToDo.md''] \<and>
   map case_insensitive_directory (find_todo_files PosixPath case_insensitive_directory) =
     [Some (py ''TODO.md''), Some (py ''TODO.md''), Some (py ''TODO.md''),
      Some (py ''TODO.md''), Some (py ''TODO.md'')] \<and>
   \<not> distinct (map case_insensitive_directory
                  (find_todo_files PosixPath case_insensitive_directory)) \<and>
   find_todo_files WindowsPath case_insensitive_directory = [py ''TODO.md'']"
  by (simp add: find_todo_files_def path_eq_def case_insensitive_directory_def lower_ascii_def)

end
